theory Spec2Isabelle
  imports Main
begin

section \<open>JavaScript values, function objects and the heap\<close>

text \<open>
  The container stores and passes around arbitrary JavaScript values. The model keeps the
  distinctions the code observes: truthiness (\<open>if (existing)\<close>), whether
  \<open>typeof arg\<close> is \<open>"function"\<close>, and reference identity of objects.
  A function object (a class or a plain callback) is named by its identity; an object
  created by \<open>new\<close> is named by its heap address.
\<close>

type_synonym ident = nat
type_synonym addr = nat

datatype val =
    VUndefined
  | VNull
  | VBool bool
  | VNum int
  | VStr string
  | VObj addr
  | VFun ident

type_synonym obj = "(string \<times> val) list"

datatype error =
    TypeError
  | ContainerError string
  | Raised string

text \<open>
  What the program around the container supplies: every function object has a
  \<open>name\<close> and a behaviour under \<open>new f(...args)\<close>. The constructor body either
  raises or initialises the properties of the freshly allocated object from the arguments
  it receives. A function that is not a constructor (an arrow function) raises
  \<open>TypeError\<close> for every argument list. Constructors are taken to be initialisers:
  they do not call back into the container and do not return some other object in place
  of the one being constructed.
\<close>

datatype fn = Fn (fname: string) (fnew: "val list \<Rightarrow> error + obj")

type_synonym classes = "ident \<Rightarrow> fn"

fun truthy :: "val \<Rightarrow> bool" where
  "truthy VUndefined = False"
| "truthy VNull = False"
| "truthy (VBool b) = b"
| "truthy (VNum n) = (n \<noteq> 0)"
| "truthy (VStr s) = (s \<noteq> [])"
| "truthy (VObj a) = True"
| "truthy (VFun f) = True"

text \<open>
  The state: the two private \<open>WeakMap\<close>s of class \<open>Container\<close> and the heap of
  objects allocated so far. The address of an object is its position in the heap, so the
  next fresh address is the length of the heap.
\<close>

record state =
  registry :: "ident \<rightharpoonup> val list"
  instances :: "ident \<rightharpoonup> val"
  heap :: "obj list"

type_synonym 'a result = "(error + 'a) \<times> state"

text \<open>\<open>constructor()\<close>: both maps start empty.\<close>

definition Container :: "obj list \<Rightarrow> state" where
  "Container h = \<lparr>registry = Map.empty, instances = Map.empty, heap = h\<rparr>"

text \<open>\<open>WeakMap.prototype.get\<close>: \<open>undefined\<close> for a missing key.\<close>

definition wm_get :: "(ident \<rightharpoonup> val) \<Rightarrow> ident \<Rightarrow> val" where
  "wm_get m k = (case m k of None \<Rightarrow> VUndefined | Some v \<Rightarrow> v)"

text \<open>
  \<open>new f(...args)\<close>: run the constructor; when it returns, the new object sits at a
  fresh address and the expression evaluates to a reference to it.
\<close>

definition new :: "classes \<Rightarrow> ident \<Rightarrow> val list \<Rightarrow> state \<Rightarrow> val result" where
  "new cls f args s =
     (case fnew (cls f) args of
        Inl e \<Rightarrow> (Inl e, s)
      | Inr ob \<Rightarrow> (Inr (VObj (length (heap s))), s\<lparr>heap := heap s @ [ob]\<rparr>))"

text \<open>
  A caller assigning to the properties of an instance it holds
  (\<open>instance.str = "hello world"\<close>) replaces the object stored at that address.
\<close>

definition mutate :: "addr \<Rightarrow> obj \<Rightarrow> state \<Rightarrow> state" where
  "mutate a ob s = s\<lparr>heap := (heap s)[a := ob]\<rparr>"

text \<open>
  \<open>Array.prototype.map\<close> with a callback that reads and extends the state, may raise,
  and may fail to return (\<open>None\<close>): the elements are visited in order, and the first
  callback that does not return a value ends the loop.
\<close>

fun array_map ::
  "(state \<Rightarrow> val \<Rightarrow> val result option) \<Rightarrow> state \<Rightarrow> val list \<Rightarrow> (val list) result option" where
  "array_map cb s [] = Some (Inr [], s)"
| "array_map cb s (arg # args) =
     (case cb s arg of
        None \<Rightarrow> None
      | Some (Inl e, s') \<Rightarrow> Some (Inl e, s')
      | Some (Inr v, s') \<Rightarrow>
          (case array_map cb s' args of
             None \<Rightarrow> None
           | Some (Inl e, s'') \<Rightarrow> Some (Inl e, s'')
           | Some (Inr vs, s'') \<Rightarrow> Some (Inr (v # vs), s'')))"

section \<open>The container of \<open>container.ts\<close>\<close>

text \<open>\<open>add\<close> and \<open>replaceArgs\<close> store the rest-parameter array under the class.\<close>

definition add :: "state \<Rightarrow> ident \<Rightarrow> val list \<Rightarrow> state" where
  "add s newClass args = s\<lparr>registry := (registry s)(newClass \<mapsto> args)\<rparr>"

definition replaceArgs :: "state \<Rightarrow> ident \<Rightarrow> val list \<Rightarrow> state" where
  "replaceArgs s className args = s\<lparr>registry := (registry s)(className \<mapsto> args)\<rparr>"

text \<open>
  \<open>addStatic\<close>: \<open>new className(...args)\<close> on the arguments as given, then the
  instance is stored. A raising constructor leaves the maps as they were.
\<close>

definition addStatic :: "classes \<Rightarrow> state \<Rightarrow> ident \<Rightarrow> val list \<Rightarrow> unit result" where
  "addStatic cls s className args =
     (case new cls className args s of
        (Inl e, s') \<Rightarrow> (Inl e, s')
      | (Inr instance, s') \<Rightarrow>
          (Inr (), s'\<lparr>instances := (instances s')(className \<mapsto> instance)\<rparr>))"

definition appendArgs :: "state \<Rightarrow> ident \<Rightarrow> val list \<Rightarrow> state" where
  "appendArgs s className newArgs =
     (let args = (case registry s className of None \<Rightarrow> [] | Some as \<Rightarrow> as)
      in s\<lparr>registry := (registry s)(className \<mapsto> args @ newArgs)\<rparr>)"

definition delete :: "state \<Rightarrow> ident \<Rightarrow> state" where
  "delete s className = s\<lparr>registry := (registry s)(className := None)\<rparr>"

text \<open>
  The callback of \<open>args.map\<close> in \<open>get\<close>. Its \<open>try\<close> block encloses the recursive
  \<open>this.get\<close> and the fallback \<open>new maybeConstructor()\<close>; the \<open>catch\<close> returns the
  argument itself. The recursive call is the parameter \<open>this_get\<close>.
\<close>

definition prepareArg ::
  "classes \<Rightarrow> (state \<Rightarrow> ident \<Rightarrow> val result option) \<Rightarrow> state \<Rightarrow> val \<Rightarrow> val result option" where
  "prepareArg cls this_get s arg =
     (case arg of
        VFun maybeConstructor \<Rightarrow>
          (case this_get s maybeConstructor of
             None \<Rightarrow> None
           | Some (Inl e, s') \<Rightarrow> Some (Inr arg, s')
           | Some (Inr registered, s') \<Rightarrow>
               if truthy registered then Some (Inr registered, s')
               else (case new cls maybeConstructor [] s' of
                       (Inl e, s'') \<Rightarrow> Some (Inr arg, s'')
                     | (Inr v, s'') \<Rightarrow> Some (Inr v, s'')))
      | _ \<Rightarrow> Some (Inr arg, s))"

text \<open>
  \<open>get\<close>. The recursion follows the recipes and need not end (a recipe may name its own
  class), so the function takes fuel: \<open>None\<close> is a call that does not return. What a
  JavaScript engine does once its call stack is exhausted is not part of the model.
\<close>

fun get :: "classes \<Rightarrow> nat \<Rightarrow> state \<Rightarrow> ident \<Rightarrow> val result option" where
  "get cls 0 s className = None"
| "get cls (Suc n) s className =
     (let existing = wm_get (instances s) className in
      if truthy existing then Some (Inr existing, s)
      else
        let args = (case registry s className of None \<Rightarrow> [] | Some as \<Rightarrow> as) in
        (case array_map (prepareArg cls (\<lambda>s' c. get cls n s' c)) s args of
           None \<Rightarrow> None
         | Some (Inl e, s') \<Rightarrow> Some (Inl e, s')
         | Some (Inr preparedArgs, s') \<Rightarrow> Some (new cls className preparedArgs s')))"

section \<open>The container of \<open>index.ts\<close>\<close>

text \<open>
  The later revision in \<open>index.ts\<close> keeps \<open>add\<close> and \<open>addStatic\<close> as they are and
  raises \<open>ContainerError\<close> for a class that is not registered.
\<close>

definition not_registered :: "classes \<Rightarrow> ident \<Rightarrow> error" where
  "not_registered cls className =
     ContainerError (fname (cls className) @ '' is not registered in container.'')"

text \<open>
  Modelled from the spec: \<open>has\<close> and \<open>hasStatic\<close> are called by \<open>index.ts\<close> and its
  tests but their bodies are not part of the source at hand. The specification describes
  them as pure existence checks that never fail; \<open>has\<close> is the check on the recipe
  table.
\<close>

definition has :: "state \<Rightarrow> ident \<Rightarrow> bool" where
  "has s className = (registry s className \<noteq> None)"

text \<open>
  Modelled from the spec: \<open>hasStatic\<close>, whose body is missing as well, is the existence
  check on the singleton table.
\<close>

definition hasStatic :: "state \<Rightarrow> ident \<Rightarrow> bool" where
  "hasStatic s className = (instances s className \<noteq> None)"

definition appendArgs_strict :: "classes \<Rightarrow> state \<Rightarrow> ident \<Rightarrow> val list \<Rightarrow> unit result" where
  "appendArgs_strict cls s className newArgs =
     (if \<not> has s className then (Inl (not_registered cls className), s)
      else (case registry s className of
              None \<Rightarrow> (Inl TypeError, s)
            | Some args \<Rightarrow>
                (Inr (), s\<lparr>registry := (registry s)(className \<mapsto> args @ newArgs)\<rparr>)))"

definition delete_strict :: "classes \<Rightarrow> state \<Rightarrow> ident \<Rightarrow> unit result" where
  "delete_strict cls s className =
     (if \<not> has s className then (Inl (not_registered cls className), s)
      else (Inr (), s\<lparr>registry := (registry s)(className := None)\<rparr>))"

text \<open>
  The callback of \<open>args.map\<close> in the later \<open>get\<close>: only the probe \<open>new arg()\<close> is
  inside the \<open>try\<close>; its object is dropped, and the recursive \<open>this.get\<close> runs after it.
\<close>

definition prepareArg_strict ::
  "classes \<Rightarrow> (state \<Rightarrow> ident \<Rightarrow> val result option) \<Rightarrow> state \<Rightarrow> val \<Rightarrow> val result option" where
  "prepareArg_strict cls this_get s arg =
     (case arg of
        VFun maybeConstructor \<Rightarrow>
          (case new cls maybeConstructor [] s of
             (Inl e, s') \<Rightarrow> Some (Inr arg, s')
           | (Inr probe, s') \<Rightarrow> this_get s' maybeConstructor)
      | _ \<Rightarrow> Some (Inr arg, s))"

fun get_strict :: "classes \<Rightarrow> nat \<Rightarrow> state \<Rightarrow> ident \<Rightarrow> val result option" where
  "get_strict cls 0 s className = None"
| "get_strict cls (Suc n) s className =
     (let existing = wm_get (instances s) className in
      if truthy existing then Some (Inr existing, s)
      else
        (case registry s className of
           None \<Rightarrow> Some (Inl (not_registered cls className), s)
         | Some args \<Rightarrow>
             (case array_map (prepareArg_strict cls (\<lambda>s' c. get_strict cls n s' c)) s args of
                None \<Rightarrow> None
              | Some (Inl e, s') \<Rightarrow> Some (Inl e, s')
              | Some (Inr preparedArgs, s') \<Rightarrow> Some (new cls className preparedArgs s'))))"

section \<open>Notions used in the statements\<close>

text \<open>
  The recipes are acyclic when the classes can be ranked so that every class named in a
  recipe ranks below the class the recipe belongs to.
\<close>

definition acyclic_by :: "(ident \<Rightarrow> nat) \<Rightarrow> (ident \<rightharpoonup> val list) \<Rightarrow> bool" where
  "acyclic_by rank reg =
     (\<forall>c args d. reg c = Some args \<longrightarrow> VFun d \<in> set args \<longrightarrow> rank d < rank c)"

section \<open>The classes of the test suite\<close>

text \<open>
  The classes declared by the tests in \<open>index.ts\<close> (\<open>NoArgs\<close>, \<open>PrimitiveArgs\<close>,
  \<open>ClassArgs\<close>, \<open>CallbackArg\<close> and the arrow function \<open>callback\<close>), and two classes
  whose constructors validate their argument: \<open>Required\<close> raises when its argument is
  missing, \<open>NonZero\<close> raises when it is the number zero. A missing argument reads as
  \<open>undefined\<close>.
\<close>

definition arg_at :: "val list \<Rightarrow> nat \<Rightarrow> val" where
  "arg_at args i = (if i < length args then args ! i else VUndefined)"

definition NoArgs :: ident where "NoArgs = 0"
definition PrimitiveArgs :: ident where "PrimitiveArgs = 1"
definition ClassArgs :: ident where "ClassArgs = 2"
definition CallbackArg :: ident where "CallbackArg = 3"
definition callback :: ident where "callback = 4"
definition Required :: ident where "Required = 5"
definition NonZero :: ident where "NonZero = 6"

definition test_classes :: classes where
  "test_classes f =
     (if f = NoArgs then Fn ''NoArgs'' (\<lambda>args. Inr [])
      else if f = PrimitiveArgs then
        Fn ''PrimitiveArgs'' (\<lambda>args. Inr [(''str'', arg_at args 0), (''num'', arg_at args 1)])
      else if f = ClassArgs then
        Fn ''ClassArgs''
          (\<lambda>args. Inr [(''primitiveArgs'', arg_at args 0), (''noArgs'', arg_at args 1)])
      else if f = CallbackArg then
        Fn ''CallbackArg'' (\<lambda>args. Inr [(''callback'', arg_at args 0)])
      else if f = Required then
        Fn ''Required''
          (\<lambda>args. if arg_at args 0 = VUndefined then Inl (Raised ''value is required'')
                   else Inr [(''value'', arg_at args 0)])
      else if f = NonZero then
        Fn ''NonZero''
          (\<lambda>args. if arg_at args 0 = VNum 0 then Inl (Raised ''zero'')
                   else Inr [(''value'', arg_at args 0)])
      else Fn ''callback'' (\<lambda>args. Inl TypeError))"

section \<open>Lemmas about the two resolvers\<close>

subsection \<open>Frame: what a call leaves untouched\<close>

lemma new_frame:
  "new cls f args s = (r, s') \<Longrightarrow>
     registry s' = registry s \<and> instances s' = instances s \<and> length (heap s) \<le> length (heap s')"
  by (auto simp: new_def split: sum.splits)

lemma array_map_frame:
  assumes cb: "\<And>s a r s'. cb s a = Some (r, s') \<Longrightarrow>
            registry s' = registry s \<and> instances s' = instances s \<and> length (heap s) \<le> length (heap s')"
  shows "array_map cb s args = Some (r, s') \<Longrightarrow>
            registry s' = registry s \<and> instances s' = instances s \<and> length (heap s) \<le> length (heap s')"
proof (induction args arbitrary: s r s')
  case Nil
  then show ?case by simp
next
  case (Cons a args)
  from Cons.prems obtain x s1 where c1: "cb s a = Some (x, s1)"
    by (auto split: option.splits)
  note f1 = cb[OF c1]
  show ?case
  proof (cases x)
    case (Inl e)
    with Cons.prems c1 have "s' = s1" by simp
    with f1 show ?thesis by simp
  next
    case (Inr v)
    with Cons.prems c1 obtain y where c2: "array_map cb s1 args = Some (y, s')"
      by (auto split: option.splits sum.splits)
    from Cons.IH[OF c2] f1 show ?thesis by simp
  qed
qed

lemma prepareArg_frame:
  assumes rec: "\<And>s c r s'. this_get s c = Some (r, s') \<Longrightarrow>
            registry s' = registry s \<and> instances s' = instances s \<and> length (heap s) \<le> length (heap s')"
  shows "prepareArg cls this_get s arg = Some (r, s') \<Longrightarrow>
            registry s' = registry s \<and> instances s' = instances s \<and> length (heap s) \<le> length (heap s')"
  by (auto simp: prepareArg_def split: val.splits option.splits sum.splits if_splits prod.splits
      dest!: rec new_frame)

lemma prepareArg_strict_frame:
  assumes rec: "\<And>s c r s'. this_get s c = Some (r, s') \<Longrightarrow>
            registry s' = registry s \<and> instances s' = instances s \<and> length (heap s) \<le> length (heap s')"
  shows "prepareArg_strict cls this_get s arg = Some (r, s') \<Longrightarrow>
            registry s' = registry s \<and> instances s' = instances s \<and> length (heap s) \<le> length (heap s')"
  by (auto simp: prepareArg_strict_def split: val.splits option.splits sum.splits if_splits prod.splits
      dest!: rec new_frame)

lemma get_frame:
  "get cls n s c = Some (r, s') \<Longrightarrow>
     registry s' = registry s \<and> instances s' = instances s \<and> length (heap s) \<le> length (heap s')"
proof (induction n arbitrary: s c r s')
  case 0
  then show ?case by simp
next
  case (Suc n)
  show ?case
  proof (cases "truthy (wm_get (instances s) c)")
    case True
    with Suc.prems show ?thesis by (simp add: Let_def)
  next
    case False
    let ?args = "case registry s c of None \<Rightarrow> [] | Some as \<Rightarrow> as"
    from Suc.prems False obtain x s1 where
      am: "array_map (prepareArg cls (\<lambda>s' c. get cls n s' c)) s ?args = Some (x, s1)"
      by (auto simp: Let_def split: option.splits)
    have f1: "registry s1 = registry s \<and> instances s1 = instances s \<and> length (heap s) \<le> length (heap s1)"
      by (rule array_map_frame[OF prepareArg_frame am]) (rule Suc.IH)
    show ?thesis
    proof (cases x)
      case (Inl e)
      with Suc.prems False am have "s' = s1" by (simp add: Let_def)
      with f1 show ?thesis by simp
    next
      case (Inr vs)
      with Suc.prems False am have "new cls c vs s1 = (r, s')" by (simp add: Let_def)
      from new_frame[OF this] f1 show ?thesis by simp
    qed
  qed
qed

lemma get_strict_frame:
  "get_strict cls n s c = Some (r, s') \<Longrightarrow>
     registry s' = registry s \<and> instances s' = instances s \<and> length (heap s) \<le> length (heap s')"
proof (induction n arbitrary: s c r s')
  case 0
  then show ?case by simp
next
  case (Suc n)
  show ?case
  proof (cases "truthy (wm_get (instances s) c)")
    case True
    with Suc.prems show ?thesis by (simp add: Let_def)
  next
    case False
    show ?thesis
    proof (cases "registry s c")
      case None
      with Suc.prems False show ?thesis by (simp add: Let_def)
    next
      case (Some args)
      from Suc.prems False Some obtain x s1 where
        am: "array_map (prepareArg_strict cls (\<lambda>s' c. get_strict cls n s' c)) s args = Some (x, s1)"
        by (auto simp: Let_def split: option.splits)
      have f1: "registry s1 = registry s \<and> instances s1 = instances s \<and> length (heap s) \<le> length (heap s1)"
        by (rule array_map_frame[OF prepareArg_strict_frame am]) (rule Suc.IH)
      show ?thesis
      proof (cases x)
        case (Inl e)
        with Suc.prems False Some am have "s' = s1" by (simp add: Let_def)
        with f1 show ?thesis by simp
      next
        case (Inr vs)
        with Suc.prems False Some am have "new cls c vs s1 = (r, s')" by (simp add: Let_def)
        from new_frame[OF this] f1 show ?thesis by simp
      qed
    qed
  qed
qed

lemma get_Suc:
  "get cls (Suc n) s c =
     (if truthy (wm_get (instances s) c) then Some (Inr (wm_get (instances s) c), s)
      else case array_map (prepareArg cls (get cls n)) s
                  (case registry s c of None \<Rightarrow> [] | Some as \<Rightarrow> as) of
             None \<Rightarrow> None
           | Some (Inl e, s') \<Rightarrow> Some (Inl e, s')
           | Some (Inr vs, s') \<Rightarrow> Some (new cls c vs s'))"
  by (simp add: Let_def)

lemma get_strict_Suc:
  "get_strict cls (Suc n) s c =
     (if truthy (wm_get (instances s) c) then Some (Inr (wm_get (instances s) c), s)
      else case registry s c of
             None \<Rightarrow> Some (Inl (not_registered cls c), s)
           | Some args \<Rightarrow>
              (case array_map (prepareArg_strict cls (get_strict cls n)) s args of
                 None \<Rightarrow> None
               | Some (Inl e, s') \<Rightarrow> Some (Inl e, s')
               | Some (Inr vs, s') \<Rightarrow> Some (new cls c vs s')))"
  by (simp add: Let_def)

lemma prepareArg_get_frame:
  "prepareArg cls (get cls n) s a = Some (r, s') \<Longrightarrow>
     registry s' = registry s \<and> instances s' = instances s \<and> length (heap s) \<le> length (heap s')"
  using prepareArg_frame[where this_get="get cls n" and cls=cls and s=s and arg=a and r=r and s'=s']
        get_frame[where cls=cls and n=n] by blast

lemma prepareArg_get_strict_frame:
  "prepareArg_strict cls (get_strict cls n) s a = Some (r, s') \<Longrightarrow>
     registry s' = registry s \<and> instances s' = instances s \<and> length (heap s) \<le> length (heap s')"
  using prepareArg_strict_frame[where this_get="get_strict cls n" and cls=cls and s=s and arg=a and r=r and s'=s']
        get_strict_frame[where cls=cls and n=n] by blast

lemma array_map_get_frame:
  assumes "array_map (prepareArg cls (get cls n)) s args = Some (r, s')"
  shows "registry s' = registry s \<and> instances s' = instances s \<and> length (heap s) \<le> length (heap s')"
  using assms by (rule array_map_frame[rotated]) (rule prepareArg_get_frame)

lemma array_map_get_strict_frame:
  assumes "array_map (prepareArg_strict cls (get_strict cls n)) s args = Some (r, s')"
  shows "registry s' = registry s \<and> instances s' = instances s \<and> length (heap s) \<le> length (heap s')"
  using assms by (rule array_map_frame[rotated]) (rule prepareArg_get_strict_frame)

subsection \<open>Returning: acyclic recipes\<close>

text \<open>
  \<open>args.map\<close> returns when its callback does on every element; with acyclic recipes
  the callback of \<open>get\<close> does, by induction on the rank of the class.
\<close>

lemma array_map_returns:
  assumes cb: "\<And>s a. a \<in> set args \<Longrightarrow> registry s = R \<Longrightarrow> \<exists>r s'. cb s a = Some (r, s')"
      and fr: "\<And>s a r s'. cb s a = Some (r, s') \<Longrightarrow> registry s' = registry s"
  shows "registry s = R \<Longrightarrow> \<exists>r s'. array_map cb s args = Some (r, s')"
  using cb
proof (induction args arbitrary: s)
  case Nil
  then show ?case by simp
next
  case (Cons a args)
  from Cons.prems(2)[of a s] Cons.prems(1) obtain x s1 where c1: "cb s a = Some (x, s1)"
    by auto
  from fr[OF c1] Cons.prems(1) have r1: "registry s1 = R" by simp
  have "\<exists>r s'. array_map cb s1 args = Some (r, s')"
    by (rule Cons.IH[OF r1]) (simp add: Cons.prems(2))
  then obtain y s2 where c2: "array_map cb s1 args = Some (y, s2)" by blast
  show ?case using c1 c2 by (cases x; cases y) simp_all
qed

lemma new_returns: "\<exists>r s'. new cls f args s = (r, s')"
  by (cases "new cls f args s") blast

lemma get_returns:
  "acyclic_by rank R \<Longrightarrow> registry s = R \<Longrightarrow> rank c \<le> n \<Longrightarrow> \<exists>r s'. get cls (Suc n) s c = Some (r, s')"
proof (induction n arbitrary: s c)
  case 0
  let ?args = "case registry s c of None \<Rightarrow> [] | Some as \<Rightarrow> as"
  have nofun: "VFun d \<notin> set ?args" for d
  proof (cases "registry s c")
    case None
    then show ?thesis by simp
  next
    case (Some as)
    have "rank d < rank c" if "VFun d \<in> set as"
      using 0(1,2) Some that unfolding acyclic_by_def by blast
    with 0(3) Some show ?thesis by auto
  qed
  have "\<exists>r s'. array_map (prepareArg cls (\<lambda>s' c. get cls 0 s' c)) s ?args = Some (r, s')"
  proof (rule array_map_returns[where R=R])
    fix t a assume "a \<in> set ?args"
    with nofun have "\<And>d. a \<noteq> VFun d" by blast
    then show "\<exists>r s'. prepareArg cls (\<lambda>s' c. get cls 0 s' c) t a = Some (r, s')"
      by (cases a) (auto simp: prepareArg_def)
  next
    fix t a r t' assume "prepareArg cls (\<lambda>s' c. get cls 0 s' c) t a = Some (r, t')"
    then show "registry t' = registry t"
      by (cases a) (auto simp: prepareArg_def)
  qed (rule 0)
  then obtain x s1 where am: "array_map (prepareArg cls (\<lambda>s' c. get cls 0 s' c)) s ?args = Some (x, s1)"
    by blast
  show ?case
    using am by (subst get.simps) (cases x; cases "new cls c (projr x) s1"; simp add: Let_def del: get.simps)
next
  case (Suc n)
  let ?args = "case registry s c of None \<Rightarrow> [] | Some as \<Rightarrow> as"
  have lower: "rank d \<le> n" if "VFun d \<in> set ?args" for d
  proof (cases "registry s c")
    case None
    with that show ?thesis by simp
  next
    case (Some as)
    with that have "VFun d \<in> set as" by simp
    then have "rank d < rank c"
      using Suc.prems(1,2) Some unfolding acyclic_by_def by blast
    with Suc.prems(3) show ?thesis by simp
  qed
  have "\<exists>r s'. array_map (prepareArg cls (\<lambda>s' c. get cls (Suc n) s' c)) s ?args = Some (r, s')"
  proof (rule array_map_returns[where R=R])
    fix t :: state and a assume a: "a \<in> set ?args" and t: "registry t = R"
    show "\<exists>r s'. prepareArg cls (\<lambda>s' c. get cls (Suc n) s' c) t a = Some (r, s')"
    proof (cases a)
      case (VFun d)
      with a lower have "rank d \<le> n" by blast
      from Suc.IH[OF Suc.prems(1) t this] obtain x t1 where g: "get cls (Suc n) t d = Some (x, t1)"
        by blast
      show ?thesis unfolding VFun prepareArg_def using g
        by (cases x; cases "new cls d [] t1"; cases "fst (new cls d [] t1)") (simp_all del: get.simps)
    qed (simp_all add: prepareArg_def)
  next
    fix t a r t' assume "prepareArg cls (\<lambda>s' c. get cls (Suc n) s' c) t a = Some (r, t')"
    then show "registry t' = registry t"
      using prepareArg_frame[where this_get="get cls (Suc n)" and cls=cls and s=t and arg=a and r=r and s'=t']
        get_frame[where cls=cls and n="Suc n"] by blast
  qed (rule Suc.prems)
  then obtain x s1 where am: "array_map (prepareArg cls (\<lambda>s' c. get cls (Suc n) s' c)) s ?args = Some (x, s1)"
    by blast
  show ?case
    using am by (subst get.simps) (cases x; cases "new cls c (projr x) s1"; simp add: Let_def del: get.simps)
qed


subsection \<open>Recipes whose arguments are all passed through\<close>

lemma array_map_passthrough:
  assumes "\<And>t a. a \<in> set args \<Longrightarrow> cb s a = Some (Inr a, s)"
  shows "array_map cb s args = Some (Inr args, s)"
  using assms by (induction args) simp_all

lemma get_strict_passthrough:
  assumes "\<not> truthy (wm_get (instances s) c)"
      and "registry s c = Some args"
      and "\<forall>a\<in>set args. \<forall>f. a = VFun f \<longrightarrow> isl (fnew (cls f) [])"
  shows "get_strict cls (Suc n) s c = Some (new cls c args s)"
proof -
  have "array_map (prepareArg_strict cls (get_strict cls n)) s args = Some (Inr args, s)"
  proof (rule array_map_passthrough)
    fix a assume a: "a \<in> set args"
    show "prepareArg_strict cls (get_strict cls n) s a = Some (Inr a, s)"
    proof (cases a)
      case (VFun f)
      with a assms(3) have "isl (fnew (cls f) [])" by blast
      then show ?thesis unfolding VFun
        by (cases "fnew (cls f) []") (simp_all add: prepareArg_strict_def new_def)
    qed (simp_all add: prepareArg_strict_def)
  qed
  with assms(1,2) show ?thesis by (simp add: get_strict_Suc del: get_strict.simps)
qed

lemma get_passthrough:
  assumes "\<not> truthy (wm_get (instances s) c)"
      and "\<forall>a\<in>set (case registry s c of None \<Rightarrow> [] | Some as \<Rightarrow> as). \<forall>f. a = VFun f \<longrightarrow>
              isl (fnew (cls f) []) \<and> registry s f = None \<and> instances s f = None"
  shows "get cls (Suc (Suc n)) s c =
           Some (new cls c (case registry s c of None \<Rightarrow> [] | Some as \<Rightarrow> as) s)"
proof -
  let ?args = "case registry s c of None \<Rightarrow> [] | Some as \<Rightarrow> as"
  have "array_map (prepareArg cls (get cls (Suc n))) s ?args = Some (Inr ?args, s)"
  proof (rule array_map_passthrough)
    fix a assume a: "a \<in> set ?args"
    show "prepareArg cls (get cls (Suc n)) s a = Some (Inr a, s)"
    proof (cases a)
      case (VFun f)
      with a assms(2) have f: "isl (fnew (cls f) [])" "registry s f = None" "instances s f = None"
        by blast+
      from f(1) obtain e where "fnew (cls f) [] = Inl e" by (cases "fnew (cls f) []") simp_all
      with f(2,3) have "get cls (Suc n) s f = Some (Inl e, s)"
        by (simp add: get_Suc wm_get_def new_def del: get.simps)
      then show ?thesis unfolding VFun by (simp add: prepareArg_def del: get.simps)
    qed (simp_all add: prepareArg_def)
  qed
  with assms(1) show ?thesis by (simp add: get_Suc[of cls "Suc n"] del: get.simps)
qed

subsection \<open>Fresh addresses\<close>

lemma new_obj:
  "new cls f args s = (Inr v, s') \<Longrightarrow>
     v = VObj (length (heap s)) \<and> length (heap s') = Suc (length (heap s))"
  by (auto simp: new_def split: sum.splits)

lemma get_fresh:
  assumes "\<not> truthy (wm_get (instances s) c)" and "get cls n s c = Some (Inr v, s')"
  shows "\<exists>a. v = VObj a \<and> length (heap s) \<le> a \<and> a < length (heap s')"
proof (cases n)
  case 0
  with assms show ?thesis by simp
next
  case (Suc k)
  from assms Suc obtain vs s1 where
    am: "array_map (prepareArg cls (get cls k)) s
           (case registry s c of None \<Rightarrow> [] | Some as \<Rightarrow> as) = Some (Inr vs, s1)"
    and nw: "new cls c vs s1 = (Inr v, s')"
    by (auto simp: get_Suc simp del: get.simps split: option.splits sum.splits)
  have "length (heap s) \<le> length (heap s1)"
    using array_map_frame[where cb="prepareArg cls (get cls k)", OF prepareArg_get_frame am] by simp
  with new_obj[OF nw] show ?thesis by simp
qed

lemma get_strict_fresh:
  assumes "\<not> truthy (wm_get (instances s) c)" and "get_strict cls n s c = Some (Inr v, s')"
  shows "\<exists>a. v = VObj a \<and> length (heap s) \<le> a \<and> a < length (heap s')"
proof (cases n)
  case 0
  with assms show ?thesis by simp
next
  case (Suc k)
  from assms Suc obtain args vs s1 where
    am: "array_map (prepareArg_strict cls (get_strict cls k)) s args = Some (Inr vs, s1)"
    and nw: "new cls c vs s1 = (Inr v, s')"
    by (auto simp: get_strict_Suc simp del: get_strict.simps split: option.splits sum.splits)
  have "length (heap s) \<le> length (heap s1)"
    using array_map_frame[where cb="prepareArg_strict cls (get_strict cls k)",
            OF prepareArg_get_strict_frame am] by simp
  with new_obj[OF nw] show ?thesis by simp
qed

subsection \<open>What \<open>args.map\<close> yields, position by position\<close>


subsection \<open>\<open>get\<close> does not read the objects on the heap\<close>

text \<open>
  Replacing an object that is already allocated commutes with \<open>new\<close>, with the
  callback and with \<open>get\<close>: the same outcome, in the state with the object replaced.
\<close>

lemma new_mutate:
  "a < length (heap s) \<Longrightarrow>
     new cls f args (mutate a ob s) = apsnd (mutate a ob) (new cls f args s)"
  by (simp add: new_def mutate_def list_update_append1 split: sum.splits)

lemma array_map_mutate:
  assumes cb: "\<And>s x. a < length (heap s) \<Longrightarrow>
                 cb (mutate a ob s) x = map_option (apsnd (mutate a ob)) (cb s x)"
      and fr: "\<And>s x r s'. cb s x = Some (r, s') \<Longrightarrow> length (heap s) \<le> length (heap s')"
  shows "a < length (heap s) \<Longrightarrow>
           array_map cb (mutate a ob s) args = map_option (apsnd (mutate a ob)) (array_map cb s args)"
proof (induction args arbitrary: s)
  case Nil
  then show ?case by simp
next
  case (Cons x args)
  show ?case
  proof (cases "cb s x")
    case None
    with cb[OF Cons.prems, of x] show ?thesis by simp
  next
    case (Some p)
    obtain r s1 where p: "p = (r, s1)" by (cases p)
    from fr Some p Cons.prems have lt: "a < length (heap s1)" by fastforce
    from cb[OF Cons.prems, of x] Some p
    have c1: "cb (mutate a ob s) x = Some (r, mutate a ob s1)" by simp
    show ?thesis
    proof (cases r)
      case (Inl e)
      with c1 Some p show ?thesis by simp
    next
      case (Inr v)
      with c1 Some p Cons.IH[OF lt] show ?thesis
        by (cases "array_map cb s1 args") (auto split: sum.splits)
    qed
  qed
qed

lemma get_mutate:
  "a < length (heap s) \<Longrightarrow>
     get cls n (mutate a ob s) c = map_option (apsnd (mutate a ob)) (get cls n s c)"
proof (induction n arbitrary: s c)
  case 0
  then show ?case by simp
next
  case (Suc n)
  have tabs: "instances (mutate a ob s) = instances s" "registry (mutate a ob s) = registry s"
    by (simp_all add: mutate_def)
  have cbm: "prepareArg cls (get cls n) (mutate a ob t) x =
               map_option (apsnd (mutate a ob)) (prepareArg cls (get cls n) t x)"
    if t: "a < length (heap t)" for t x
  proof (cases x)
    case (VFun f)
    show ?thesis
    proof (cases "get cls n t f")
      case None
      with Suc.IH[OF t, of f] show ?thesis unfolding VFun by (simp add: prepareArg_def)
    next
      case (Some p)
      obtain r t1 where p: "p = (r, t1)" by (cases p)
      from get_frame Some p t have lt: "a < length (heap t1)" by fastforce
      from Suc.IH[OF t, of f] Some p
      have g: "get cls n (mutate a ob t) f = Some (r, mutate a ob t1)" by simp
      show ?thesis unfolding VFun prepareArg_def using g Some p new_mutate[OF lt, of cls f "[]"]
        by (cases r; cases "new cls f [] t1"; cases "fst (new cls f [] t1)") simp_all
    qed
  qed (simp_all add: prepareArg_def)
  let ?args = "case registry s c of None \<Rightarrow> [] | Some as \<Rightarrow> as"
  have am: "array_map (prepareArg cls (get cls n)) (mutate a ob s) ?args =
              map_option (apsnd (mutate a ob)) (array_map (prepareArg cls (get cls n)) s ?args)"
  proof (rule array_map_mutate[where cb="prepareArg cls (get cls n)"])
    fix t :: state and x assume "a < length (heap t)"
    then show "prepareArg cls (get cls n) (mutate a ob t) x =
                 map_option (apsnd (mutate a ob)) (prepareArg cls (get cls n) t x)"
      by (rule cbm)
  next
    fix t :: state and x r t' assume "prepareArg cls (get cls n) t x = Some (r, t')"
    then show "length (heap t) \<le> length (heap t')"
      using prepareArg_get_frame by blast
  qed (rule Suc.prems)
  show ?case
  proof (cases "truthy (wm_get (instances s) c)")
    case True
    then show ?thesis by (simp add: get_Suc tabs del: get.simps)
  next
    case False
    show ?thesis
    proof (cases "array_map (prepareArg cls (get cls n)) s ?args")
      case None
      with am False show ?thesis by (simp add: get_Suc tabs del: get.simps)
    next
      case (Some p)
      obtain r s1 where p: "p = (r, s1)" by (cases p)
      have "length (heap s) \<le> length (heap s1)"
        using array_map_get_frame Some p by blast
      with Suc.prems have lt: "a < length (heap s1)" by simp
      show ?thesis using am False Some p new_mutate[OF lt]
        by (cases r) (simp_all add: get_Suc tabs del: get.simps)
    qed
  qed
qed

subsection \<open>Arguments that \<open>args.map\<close> leaves as they are\<close>








text \<open>
  \<open>addStatic\<close> cannot bind a function that no argument list constructs: the construction
  raises and the state stays as it was.
\<close>

lemma addStatic_not_constructible:
  assumes "\<forall>as. isl (fnew (cls f) as)"
  shows "\<exists>e. addStatic cls s f args = (Inl e, s)"
proof -
  from assms have "isl (fnew (cls f) args)" by blast
  then obtain e where "fnew (cls f) args = Inl e" by (cases "fnew (cls f) args") auto
  then show ?thesis by (simp add: addStatic_def new_def)
qed

lemmas test_defs = test_classes_def arg_at_def NoArgs_def PrimitiveArgs_def ClassArgs_def
  CallbackArg_def callback_def Required_def NonZero_def Container_def add_def new_def wm_get_def
  prepareArg_def prepareArg_strict_def addStatic_def Let_def

section \<open>Singleton registration and errors of dependencies\<close>

text \<open>
  C1. \<open>addStatic\<close> stores the instance under the class in the singleton table, apart
  from the recipes, but it does not resolve its arguments first: it calls
  \<open>new className(...args)\<close> on the arguments as given. With \<open>NoArgs\<close> and
  \<open>PrimitiveArgs\<close> registered, \<open>addStatic(ClassArgs, PrimitiveArgs, NoArgs)\<close> builds
  an instance whose two properties are the classes themselves, where \<open>get\<close> on the same
  recipe injects two instances.
\<close>

theorem addStatic_passes_arguments_unresolved:
  "addStatic test_classes
     (add (add (Container []) NoArgs []) PrimitiveArgs [VStr ''foo'', VNum 42])
     ClassArgs [VFun PrimitiveArgs, VFun NoArgs]
   = (Inr (),
      \<lparr>registry = [NoArgs \<mapsto> [], PrimitiveArgs \<mapsto> [VStr ''foo'', VNum 42]],
        instances = [ClassArgs \<mapsto> VObj 0],
        heap = [[(''primitiveArgs'', VFun PrimitiveArgs), (''noArgs'', VFun NoArgs)]]\<rparr>) \<and>
   get_strict test_classes (Suc (Suc 0))
     (add (add (add (Container []) NoArgs []) PrimitiveArgs [VStr ''foo'', VNum 42])
        ClassArgs [VFun PrimitiveArgs, VFun NoArgs])
     ClassArgs
   = Some (Inr (VObj 4),
      \<lparr>registry = [NoArgs \<mapsto> [], PrimitiveArgs \<mapsto> [VStr ''foo'', VNum 42],
                    ClassArgs \<mapsto> [VFun PrimitiveArgs, VFun NoArgs]],
        instances = Map.empty,
        heap = [[(''str'', VUndefined), (''num'', VUndefined)],
                [(''str'', VStr ''foo''), (''num'', VNum 42)],
                [], [],
                [(''primitiveArgs'', VObj 1), (''noArgs'', VObj 3)]]\<rparr>)"
  by (simp add: test_defs)

text \<open>
  C2. In \<open>container.ts\<close> the \<open>try\<close> block encloses the recursive \<open>this.get\<close>, so an
  error raised by the constructor of a dependency is caught with the rest: the class
  \<open>NonZero\<close>, registered with the argument \<open>0\<close>, raises when resolved on its own, yet
  resolving \<open>CallbackArg\<close>, whose recipe names \<open>NonZero\<close>, returns an instance that
  holds the class \<open>NonZero\<close> itself. The \<open>get\<close> of \<open>index.ts\<close> raises the error of
  \<open>NonZero\<close> on the same input.
\<close>

theorem get_swallows_dependency_error:
  "get test_classes (Suc 0)
     (add (add (Container []) NonZero [VNum 0]) CallbackArg [VFun NonZero]) NonZero
   = Some (Inl (Raised ''zero''),
       add (add (Container []) NonZero [VNum 0]) CallbackArg [VFun NonZero]) \<and>
   get test_classes (Suc (Suc 0))
     (add (add (Container []) NonZero [VNum 0]) CallbackArg [VFun NonZero]) CallbackArg
   = Some (Inr (VObj 0),
       add (add (Container []) NonZero [VNum 0]) CallbackArg [VFun NonZero]
         \<lparr>heap := [[(''callback'', VFun NonZero)]]\<rparr>) \<and>
   get_strict test_classes (Suc (Suc 0))
     (add (add (Container []) NonZero [VNum 0]) CallbackArg [VFun NonZero]) CallbackArg
   = Some (Inl (Raised ''zero''),
       add (add (Container []) NonZero [VNum 0]) CallbackArg [VFun NonZero]
         \<lparr>heap := [[(''value'', VUndefined)]]\<rparr>)"
  by (simp add: test_defs)

text \<open>
  In \<open>index.ts\<close> an error of the recursive \<open>this.get\<close> leaves \<open>get\<close> as it is: for a
  recipe that names one dependency whose probe succeeds, the error raised while resolving
  the dependency is the outcome of resolving the class.
\<close>

lemma get_strict_propagates:
  assumes "instances s C = None" and "registry s C = Some [VFun D]"
      and "new cls D [] s = (Inr probe, s1)"
      and "get_strict cls n s1 D = Some (Inl e, s2)"
  shows "get_strict cls (Suc n) s C = Some (Inl e, s2)"
  using assms by (simp add: get_strict_Suc wm_get_def prepareArg_strict_def del: get_strict.simps)

section \<open>Singletons\<close>

text \<open>
  C3. After a successful \<open>addStatic(C, ...)\<close> the singleton table binds \<open>C\<close> to the
  reference of the object just created. In every state in which that binding stands,
  \<open>get(C)\<close> returns that same reference and leaves the state as it is, so every later
  call returns it again; this holds whatever recipe \<open>add\<close> registers for \<open>C\<close>
  (the singleton comes first) and whatever the caller has written into the object in the
  meantime (the object read through the reference is the mutated one).
\<close>

theorem singleton_always_resolved:
  assumes "addStatic cls s C args = (Inr u, s1)"
  shows "instances s1 C = Some (VObj (length (heap s))) \<and>
         length (heap s) < length (heap s1) \<and>
         (\<forall>s2 n. instances s2 C = Some (VObj (length (heap s))) \<longrightarrow>
            get cls (Suc n) s2 C = Some (Inr (VObj (length (heap s))), s2) \<and>
            get_strict cls (Suc n) s2 C = Some (Inr (VObj (length (heap s))), s2)) \<and>
         (\<forall>recipe. instances (add s1 C recipe) C = Some (VObj (length (heap s)))) \<and>
         (\<forall>ob. instances (mutate (length (heap s)) ob s1) C = Some (VObj (length (heap s))) \<and>
               heap (mutate (length (heap s)) ob s1) ! length (heap s) = ob)"
proof -
  from assms obtain ob where
    s1: "s1 = s\<lparr>heap := heap s @ [ob], instances := (instances s)(C \<mapsto> VObj (length (heap s)))\<rparr>"
    by (auto simp: addStatic_def new_def split: sum.splits)
  show ?thesis
    by (simp add: s1 add_def mutate_def wm_get_def Let_def)
qed

theorem singleton_always_resolved_witness:
  "addStatic test_classes (Container []) PrimitiveArgs [VStr ''foo'', VNum 42]
     = (Inr (), \<lparr>registry = Map.empty, instances = [PrimitiveArgs \<mapsto> VObj 0],
                 heap = [[(''str'', VStr ''foo''), (''num'', VNum 42)]]\<rparr>) \<and>
   get_strict test_classes (Suc 0)
     (mutate 0 [(''str'', VStr ''hello world''), (''num'', VNum 42)]
        (add \<lparr>registry = Map.empty, instances = [PrimitiveArgs \<mapsto> VObj 0],
              heap = [[(''str'', VStr ''foo''), (''num'', VNum 42)]]\<rparr>
           PrimitiveArgs [VStr ''bar'', VNum 24]))
     PrimitiveArgs
   = Some (Inr (VObj 0),
       mutate 0 [(''str'', VStr ''hello world''), (''num'', VNum 42)]
        (add \<lparr>registry = Map.empty, instances = [PrimitiveArgs \<mapsto> VObj 0],
              heap = [[(''str'', VStr ''foo''), (''num'', VNum 42)]]\<rparr>
           PrimitiveArgs [VStr ''bar'', VNum 24])) \<and>
   heap (mutate 0 [(''str'', VStr ''hello world''), (''num'', VNum 42)]
          \<lparr>registry = Map.empty, instances = [PrimitiveArgs \<mapsto> VObj 0],
            heap = [[(''str'', VStr ''foo''), (''num'', VNum 42)]]\<rparr>) ! 0
     = [(''str'', VStr ''hello world''), (''num'', VNum 42)]"
proof -
  let ?s1 = "\<lparr>registry = Map.empty, instances = [PrimitiveArgs \<mapsto> VObj 0],
              heap = [[(''str'', VStr ''foo''), (''num'', VNum 42)]]\<rparr>"
  let ?ob = "[(''str'', VStr ''hello world''), (''num'', VNum 42)]"
  let ?s2 = "mutate 0 ?ob (add ?s1 PrimitiveArgs [VStr ''bar'', VNum 24])"
  have h: "addStatic test_classes (Container []) PrimitiveArgs [VStr ''foo'', VNum 42] = (Inr (), ?s1)"
    by (simp add: test_defs)
  have len: "length (heap (Container [])) = 0" by (simp add: Container_def)
  have i2: "instances ?s2 PrimitiveArgs = Some (VObj 0)" by (simp add: mutate_def add_def)
  note t = singleton_always_resolved[OF h, unfolded len]
  from t have "get_strict test_classes (Suc 0) ?s2 PrimitiveArgs = Some (Inr (VObj 0), ?s2)"
    using i2 by blast
  moreover from t have "heap (mutate 0 ?ob ?s1) ! 0 = ?ob" by blast
  ultimately show ?thesis using h by blast
qed

section \<open>Injected dependencies and fresh instances\<close>

text \<open>
  C4. The \<open>get\<close> of \<open>index.ts\<close> does not inject every registered dependency. It
  first probes the class with \<open>new arg()\<close> and, when that raises, passes the class
  itself. \<open>Required\<close> is registered with the argument \<open>"x"\<close> and resolves to an
  instance on its own, but its constructor raises without an argument: resolving
  \<open>CallbackArg\<close>, whose recipe names \<open>Required\<close>, hands the class \<open>Required\<close> to
  the constructor. The \<open>get\<close> of \<open>container.ts\<close> injects an instance of \<open>Required\<close>
  on the same input.
\<close>

theorem registered_identity_passed_as_is:
  "has (add (add (Container []) Required [VStr ''x'']) CallbackArg [VFun Required]) Required \<and>
   get_strict test_classes (Suc 0)
     (add (add (Container []) Required [VStr ''x'']) CallbackArg [VFun Required]) Required
   = Some (Inr (VObj 0),
       add (add (Container []) Required [VStr ''x'']) CallbackArg [VFun Required]
         \<lparr>heap := [[(''value'', VStr ''x'')]]\<rparr>) \<and>
   get_strict test_classes (Suc (Suc 0))
     (add (add (Container []) Required [VStr ''x'']) CallbackArg [VFun Required]) CallbackArg
   = Some (Inr (VObj 0),
       add (add (Container []) Required [VStr ''x'']) CallbackArg [VFun Required]
         \<lparr>heap := [[(''callback'', VFun Required)]]\<rparr>) \<and>
   get test_classes (Suc (Suc 0))
     (add (add (Container []) Required [VStr ''x'']) CallbackArg [VFun Required]) CallbackArg
   = Some (Inr (VObj 1),
       add (add (Container []) Required [VStr ''x'']) CallbackArg [VFun Required]
         \<lparr>heap := [[(''value'', VStr ''x'')], [(''callback'', VObj 0)]]\<rparr>)"
  by (simp add: test_defs has_def)

text \<open>
  C5. A class without singleton binding: two successive calls of \<open>get\<close> that return
  instances return references to two different objects, the second at an address that
  was not allocated when the first call returned. Writing to the first instance between
  the calls changes neither what the second call returns nor the object it creates, and
  writing to either instance afterwards leaves the other as it is. Both calls do return
  when the recipes are acyclic.
\<close>

theorem recipe_instances_are_fresh:
  assumes "instances s C = None"
      and "get cls n s C = Some (Inr v1, s1)"
      and "get cls m s1 C = Some (Inr v2, s2)"
  shows "(\<exists>a1 a2. v1 = VObj a1 \<and> v2 = VObj a2 \<and> a1 \<noteq> a2 \<and>
            length (heap s) \<le> a1 \<and> a1 < length (heap s1) \<and>
            length (heap s1) \<le> a2 \<and> a2 < length (heap s2) \<and>
            (\<forall>ob. get cls m (mutate a1 ob s1) C = Some (Inr v2, mutate a1 ob s2) \<and>
                  heap (mutate a1 ob s2) ! a2 = heap s2 ! a2 \<and>
                  heap (mutate a2 ob s2) ! a1 = heap s2 ! a1)) \<and>
         (acyclic_by rank (registry s) \<and> rank C \<le> k \<longrightarrow>
            (\<exists>r t. get cls (Suc k) s C = Some (r, t) \<and>
                   (\<exists>r' t'. get cls (Suc k) t C = Some (r', t'))))"
proof
  from assms(1) have nt: "\<not> truthy (wm_get (instances s) C)" by (simp add: wm_get_def)
  from get_fresh[OF nt assms(2)] obtain a1 where
    a1: "v1 = VObj a1" "length (heap s) \<le> a1" "a1 < length (heap s1)" by blast
  from get_frame[OF assms(2)] assms(1) have "instances s1 C = None" by simp
  then have nt1: "\<not> truthy (wm_get (instances s1) C)" by (simp add: wm_get_def)
  from get_fresh[OF nt1 assms(3)] obtain a2 where
    a2: "v2 = VObj a2" "length (heap s1) \<le> a2" "a2 < length (heap s2)" by blast
  from a1 a2 have ne: "a1 \<noteq> a2" by simp
  have m: "get cls m (mutate a1 ob s1) C = Some (Inr v2, mutate a1 ob s2)" for ob
    using get_mutate[OF a1(3), of cls m ob C] assms(3) by simp
  have "heap (mutate a1 ob s2) ! a2 = heap s2 ! a2" "heap (mutate a2 ob s2) ! a1 = heap s2 ! a1" for ob
    using ne by (simp_all add: mutate_def)
  with a1 a2 ne m
  show "\<exists>a1 a2. v1 = VObj a1 \<and> v2 = VObj a2 \<and> a1 \<noteq> a2 \<and>
            length (heap s) \<le> a1 \<and> a1 < length (heap s1) \<and>
            length (heap s1) \<le> a2 \<and> a2 < length (heap s2) \<and>
            (\<forall>ob. get cls m (mutate a1 ob s1) C = Some (Inr v2, mutate a1 ob s2) \<and>
                  heap (mutate a1 ob s2) ! a2 = heap s2 ! a2 \<and>
                  heap (mutate a2 ob s2) ! a1 = heap s2 ! a1)"
    by blast
next
  show "acyclic_by rank (registry s) \<and> rank C \<le> k \<longrightarrow>
            (\<exists>r t. get cls (Suc k) s C = Some (r, t) \<and>
                   (\<exists>r' t'. get cls (Suc k) t C = Some (r', t')))"
  proof
    assume ac: "acyclic_by rank (registry s) \<and> rank C \<le> k"
    then obtain r t where g1: "get cls (Suc k) s C = Some (r, t)"
      using get_returns[of rank "registry s" s C k cls] by blast
    from get_frame[OF g1] have "registry t = registry s" by simp
    with ac obtain r' t' where "get cls (Suc k) t C = Some (r', t')"
      using get_returns[of rank "registry s" t C k cls] by blast
    with g1 show "\<exists>r t. get cls (Suc k) s C = Some (r, t) \<and>
                   (\<exists>r' t'. get cls (Suc k) t C = Some (r', t'))" by blast
  qed
qed

theorem recipe_instances_are_fresh_witness:
  "get test_classes (Suc 0) (add (Container []) PrimitiveArgs [VStr ''foo'', VNum 42]) PrimitiveArgs
     = Some (Inr (VObj 0),
         add (Container []) PrimitiveArgs [VStr ''foo'', VNum 42]
           \<lparr>heap := [[(''str'', VStr ''foo''), (''num'', VNum 42)]]\<rparr>) \<and>
   get test_classes (Suc 0)
       (add (Container []) PrimitiveArgs [VStr ''foo'', VNum 42]
           \<lparr>heap := [[(''str'', VStr ''foo''), (''num'', VNum 42)]]\<rparr>) PrimitiveArgs
     = Some (Inr (VObj 1),
         add (Container []) PrimitiveArgs [VStr ''foo'', VNum 42]
           \<lparr>heap := [[(''str'', VStr ''foo''), (''num'', VNum 42)],
                     [(''str'', VStr ''foo''), (''num'', VNum 42)]]\<rparr>) \<and>
   get test_classes (Suc 0)
       (mutate 0 [(''str'', VStr ''hello world''), (''num'', VNum 42)]
          (add (Container []) PrimitiveArgs [VStr ''foo'', VNum 42]
             \<lparr>heap := [[(''str'', VStr ''foo''), (''num'', VNum 42)]]\<rparr>)) PrimitiveArgs
     = Some (Inr (VObj 1),
         mutate 0 [(''str'', VStr ''hello world''), (''num'', VNum 42)]
          (add (Container []) PrimitiveArgs [VStr ''foo'', VNum 42]
             \<lparr>heap := [[(''str'', VStr ''foo''), (''num'', VNum 42)],
                       [(''str'', VStr ''foo''), (''num'', VNum 42)]]\<rparr>)) \<and>
   heap (mutate 0 [(''str'', VStr ''hello world''), (''num'', VNum 42)]
          (add (Container []) PrimitiveArgs [VStr ''foo'', VNum 42]
             \<lparr>heap := [[(''str'', VStr ''foo''), (''num'', VNum 42)],
                       [(''str'', VStr ''foo''), (''num'', VNum 42)]]\<rparr>)) ! 1
     = [(''str'', VStr ''foo''), (''num'', VNum 42)]"
proof -
  let ?s = "add (Container []) PrimitiveArgs [VStr ''foo'', VNum 42]"
  let ?s1 = "?s\<lparr>heap := [[(''str'', VStr ''foo''), (''num'', VNum 42)]]\<rparr>"
  let ?s2 = "?s\<lparr>heap := [[(''str'', VStr ''foo''), (''num'', VNum 42)],
                     [(''str'', VStr ''foo''), (''num'', VNum 42)]]\<rparr>"
  let ?ob = "[(''str'', VStr ''hello world''), (''num'', VNum 42)]"
  have h1: "instances ?s PrimitiveArgs = None" by (simp add: add_def Container_def)
  have g1: "get test_classes (Suc 0) ?s PrimitiveArgs = Some (Inr (VObj 0), ?s1)"
    by (simp add: test_defs)
  have g2: "get test_classes (Suc 0) ?s1 PrimitiveArgs = Some (Inr (VObj 1), ?s2)"
    by (simp add: test_defs)
  from recipe_instances_are_fresh[OF h1 g1 g2, of "\<lambda>c. 0" 0]
  have "get test_classes (Suc 0) (mutate 0 ?ob ?s1) PrimitiveArgs = Some (Inr (VObj 1), mutate 0 ?ob ?s2)"
    and "heap (mutate 0 ?ob ?s2) ! 1 = heap ?s2 ! 1"
    by auto
  moreover have "heap ?s2 ! 1 = [(''str'', VStr ''foo''), (''num'', VNum 42)]" by simp
  ultimately show ?thesis using g1 g2 by simp
qed

text \<open>
  The \<open>get\<close> of \<open>index.ts\<close> allocates in the same way: two successive calls for a
  class without singleton binding that return instances return different references.
\<close>

lemma get_strict_instances_distinct:
  assumes "instances s C = None"
      and "get_strict cls n s C = Some (Inr v1, s1)"
      and "get_strict cls m s1 C = Some (Inr v2, s2)"
  shows "v1 \<noteq> v2"
proof -
  from assms(1) have nt: "\<not> truthy (wm_get (instances s) C)" by (simp add: wm_get_def)
  from get_strict_fresh[OF nt assms(2)] obtain a1 where
    a1: "v1 = VObj a1" "a1 < length (heap s1)" by blast
  from get_strict_frame[OF assms(2)] assms(1) have "instances s1 C = None" by simp
  then have nt1: "\<not> truthy (wm_get (instances s1) C)" by (simp add: wm_get_def)
  from get_strict_fresh[OF nt1 assms(3)] obtain a2 where
    a2: "v2 = VObj a2" "length (heap s1) \<le> a2" by blast
  from a1 a2 show ?thesis by simp
qed

section \<open>Unregistered classes, appended arguments and plain values\<close>

text \<open>
  C6. A class that has neither a recipe nor a singleton binding: \<open>has\<close> and
  \<open>hasStatic\<close> are false, and the \<open>get\<close> of \<open>index.ts\<close> raises
  \<open>ContainerError\<close> with the message that starts with the name of the class. Any
  fuel of at least one is enough.
\<close>

theorem unregistered_identity:
  assumes "registry s C = None" and "instances s C = None"
  shows "has s C = False \<and> hasStatic s C = False \<and>
         get_strict cls (Suc n) s C =
           Some (Inl (ContainerError (fname (cls C) @ '' is not registered in container.'')), s)"
  using assms by (simp add: has_def hasStatic_def wm_get_def not_registered_def Let_def)

theorem unregistered_identity_witness:
  "registry (Container []) NoArgs = None \<and> instances (Container []) NoArgs = None \<and>
   has (Container []) NoArgs = False \<and> hasStatic (Container []) NoArgs = False \<and>
   get_strict test_classes (Suc 0) (Container []) NoArgs =
     Some (Inl (ContainerError ''NoArgs is not registered in container.''), Container [])"
proof -
  have h1: "registry (Container []) NoArgs = None" by (simp add: Container_def)
  have h2: "instances (Container []) NoArgs = None" by (simp add: Container_def)
  from unregistered_identity[OF h1 h2, of test_classes 0] h1 h2
  show ?thesis by (simp add: test_classes_def)
qed

text \<open>
  C7. \<open>appendArgs\<close> after \<open>add\<close> leaves exactly the state that \<open>add\<close> with the
  concatenated argument list leaves, in \<open>container.ts\<close> and (without raising) in
  \<open>index.ts\<close>: the recipe is the old arguments followed by the new ones. So \<open>get\<close>
  behaves as for that recipe; in particular, for a class without singleton binding and
  arguments that are not functions, \<open>get\<close> is \<open>new C(a, x)\<close>.
\<close>

theorem appendArgs_appends:
  "appendArgs (add s C as) C xs = add s C (as @ xs) \<and>
   appendArgs_strict cls (add s C as) C xs = (Inr (), add s C (as @ xs)) \<and>
   registry (appendArgs (add s C as) C xs) C = Some (as @ xs) \<and>
   (instances s C = None \<and> (\<forall>a\<in>set (as @ xs). \<forall>f. a \<noteq> VFun f) \<longrightarrow>
      get cls (Suc (Suc n)) (appendArgs (add s C as) C xs) C
        = Some (new cls C (as @ xs) (appendArgs (add s C as) C xs)) \<and>
      get_strict cls (Suc n) (snd (appendArgs_strict cls (add s C as) C xs)) C
        = Some (new cls C (as @ xs) (appendArgs (add s C as) C xs)))"
proof -
  have e1: "appendArgs (add s C as) C xs = add s C (as @ xs)"
    by (simp add: appendArgs_def add_def)
  have e2: "appendArgs_strict cls (add s C as) C xs = (Inr (), add s C (as @ xs))"
    by (simp add: appendArgs_strict_def add_def has_def)
  have r: "registry (add s C (as @ xs)) C = Some (as @ xs)" by (simp add: add_def)
  have i: "instances (add s C (as @ xs)) = instances s" by (simp add: add_def)
  have "get cls (Suc (Suc n)) (add s C (as @ xs)) C = Some (new cls C (as @ xs) (add s C (as @ xs)))"
    and "get_strict cls (Suc n) (add s C (as @ xs)) C = Some (new cls C (as @ xs) (add s C (as @ xs)))"
    if "instances s C = None" and nf: "\<forall>a\<in>set (as @ xs). \<forall>f. a \<noteq> VFun f"
  proof -
    from that(1) i have nt: "\<not> truthy (wm_get (instances (add s C (as @ xs))) C)"
      by (simp add: wm_get_def)
    show "get cls (Suc (Suc n)) (add s C (as @ xs)) C = Some (new cls C (as @ xs) (add s C (as @ xs)))"
      using get_passthrough[OF nt, of cls n] nf r by auto
    show "get_strict cls (Suc n) (add s C (as @ xs)) C = Some (new cls C (as @ xs) (add s C (as @ xs)))"
      using get_strict_passthrough[OF nt r, of cls n] nf by auto
  qed
  with e1 e2 r show ?thesis by simp
qed

theorem appendArgs_appends_witness:
  "get_strict test_classes (Suc 0)
     (snd (appendArgs_strict test_classes (add (Container []) PrimitiveArgs [VStr ''foo''])
             PrimitiveArgs [VNum 42]))
     PrimitiveArgs
   = Some (Inr (VObj 0),
       \<lparr>registry = [PrimitiveArgs \<mapsto> [VStr ''foo'', VNum 42]], instances = Map.empty,
         heap = [[(''str'', VStr ''foo''), (''num'', VNum 42)]]\<rparr>) \<and>
   get test_classes (Suc (Suc 0))
     (appendArgs (add (Container []) PrimitiveArgs [VStr ''foo'']) PrimitiveArgs [VNum 42])
     PrimitiveArgs
   = Some (Inr (VObj 0),
       \<lparr>registry = [PrimitiveArgs \<mapsto> [VStr ''foo'', VNum 42]], instances = Map.empty,
         heap = [[(''str'', VStr ''foo''), (''num'', VNum 42)]]\<rparr>)"
proof -
  have h1: "instances (Container []) PrimitiveArgs = None" by (simp add: Container_def)
  have h2: "\<forall>a\<in>set ([VStr ''foo''] @ [VNum 42]). \<forall>f. a \<noteq> VFun f" by simp
  have n: "new test_classes PrimitiveArgs ([VStr ''foo''] @ [VNum 42])
             (appendArgs (add (Container []) PrimitiveArgs [VStr ''foo'']) PrimitiveArgs [VNum 42])
           = (Inr (VObj 0),
       \<lparr>registry = [PrimitiveArgs \<mapsto> [VStr ''foo'', VNum 42]], instances = Map.empty,
         heap = [[(''str'', VStr ''foo''), (''num'', VNum 42)]]\<rparr>)"
    by (simp add: test_defs appendArgs_def)
  note t = appendArgs_appends[of "Container []" PrimitiveArgs "[VStr ''foo'']" "[VNum 42]"
         test_classes 0]
  from t h1 h2 have
    "get test_classes (Suc (Suc 0))
       (appendArgs (add (Container []) PrimitiveArgs [VStr ''foo'']) PrimitiveArgs [VNum 42])
       PrimitiveArgs
     = Some (new test_classes PrimitiveArgs ([VStr ''foo''] @ [VNum 42])
         (appendArgs (add (Container []) PrimitiveArgs [VStr ''foo'']) PrimitiveArgs [VNum 42]))"
    by blast
  moreover from t h1 h2 have
    "get_strict test_classes (Suc 0)
       (snd (appendArgs_strict test_classes (add (Container []) PrimitiveArgs [VStr ''foo''])
               PrimitiveArgs [VNum 42]))
       PrimitiveArgs
     = Some (new test_classes PrimitiveArgs ([VStr ''foo''] @ [VNum 42])
         (appendArgs (add (Container []) PrimitiveArgs [VStr ''foo'']) PrimitiveArgs [VNum 42]))"
    by blast
  ultimately show ?thesis unfolding n by blast
qed




section \<open>Frame of \<open>delete\<close> and \<open>get\<close>\<close>

text \<open>
  C9. \<open>delete\<close> removes a recipe and nothing else: the singleton table and the heap
  are the same after it, for the class deleted and for every other class, so a
  singleton-bound class \<open>D\<close> is still bound (\<open>hasStatic\<close>) and \<open>get\<close> returns the
  same instance as before, whichever class \<open>C\<close> was deleted (\<open>C = D\<close> included).
\<close>

theorem delete_keeps_singletons:
  assumes "instances s D = Some (VObj a)"
  shows "registry (delete s C) = (registry s)(C := None) \<and>
         instances (delete s C) = instances s \<and> heap (delete s C) = heap s \<and>
         instances (snd (delete_strict cls s C)) = instances s \<and>
         heap (snd (delete_strict cls s C)) = heap s \<and>
         hasStatic (delete s C) D \<and>
         get cls (Suc n) s D = Some (Inr (VObj a), s) \<and>
         get cls (Suc n) (delete s C) D = Some (Inr (VObj a), delete s C)"
  using assms by (simp add: delete_def delete_strict_def hasStatic_def wm_get_def Let_def)

theorem delete_keeps_singletons_witness:
  "fst (addStatic test_classes (add (Container []) NoArgs []) NoArgs []) = Inr () \<and>
   instances (snd (addStatic test_classes (add (Container []) NoArgs []) NoArgs [])) NoArgs
     = Some (VObj 0) \<and>
   hasStatic (delete (snd (addStatic test_classes (add (Container []) NoArgs []) NoArgs [])) NoArgs)
     NoArgs \<and>
   has (delete (snd (addStatic test_classes (add (Container []) NoArgs []) NoArgs [])) NoArgs)
     NoArgs = False \<and>
   get test_classes (Suc 0)
       (delete (snd (addStatic test_classes (add (Container []) NoArgs []) NoArgs [])) NoArgs) NoArgs
     = Some (Inr (VObj 0),
         delete (snd (addStatic test_classes (add (Container []) NoArgs []) NoArgs [])) NoArgs)"
proof -
  let ?s = "snd (addStatic test_classes (add (Container []) NoArgs []) NoArgs [])"
  have h: "instances ?s NoArgs = Some (VObj 0)" by (simp add: test_defs)
  have r: "fst (addStatic test_classes (add (Container []) NoArgs []) NoArgs []) = Inr ()"
    by (simp add: test_defs)
  have d: "has (delete ?s NoArgs) NoArgs = False" by (simp add: has_def delete_def)
  from delete_keeps_singletons[OF h, of NoArgs test_classes 0] h r d
  show ?thesis by (simp del: get.simps)
qed

text \<open>
  C10. \<open>get\<close> only reads the two maps: whenever a call returns, with an instance or
  with an error, the recipe table and the singleton table of the state it leaves are the
  tables it found. This holds for the \<open>get\<close> of \<open>container.ts\<close> and for the one of
  \<open>index.ts\<close>.
\<close>

theorem get_leaves_tables_unchanged:
  "(get cls n s C = Some (r, s') \<longrightarrow> registry s' = registry s \<and> instances s' = instances s) \<and>
   (get_strict cls n s C = Some (r, s') \<longrightarrow> registry s' = registry s \<and> instances s' = instances s)"
  using get_frame[of cls n s C r s'] get_strict_frame[of cls n s C r s'] by blast

theorem get_leaves_tables_unchanged_witness:
  "get test_classes (Suc (Suc 0)) (add (add (Container []) NoArgs []) CallbackArg [VFun NoArgs])
       CallbackArg
     = Some (Inr (VObj 1),
         (add (add (Container []) NoArgs []) CallbackArg [VFun NoArgs])
           \<lparr>heap := [[], [(''callback'', VObj 0)]]\<rparr>) \<and>
   get_strict test_classes (Suc 0) (add (add (Container []) NoArgs []) CallbackArg [VFun NoArgs])
       Required
     = Some (Inl (ContainerError ''Required is not registered in container.''),
         add (add (Container []) NoArgs []) CallbackArg [VFun NoArgs]) \<and>
   registry ((add (add (Container []) NoArgs []) CallbackArg [VFun NoArgs])
           \<lparr>heap := [[], [(''callback'', VObj 0)]]\<rparr>)
     = registry (add (add (Container []) NoArgs []) CallbackArg [VFun NoArgs]) \<and>
   instances ((add (add (Container []) NoArgs []) CallbackArg [VFun NoArgs])
           \<lparr>heap := [[], [(''callback'', VObj 0)]]\<rparr>)
     = instances (add (add (Container []) NoArgs []) CallbackArg [VFun NoArgs])"
proof -
  let ?s = "add (add (Container []) NoArgs []) CallbackArg [VFun NoArgs]"
  have g: "get test_classes (Suc (Suc 0)) ?s CallbackArg
             = Some (Inr (VObj 1), ?s\<lparr>heap := [[], [(''callback'', VObj 0)]]\<rparr>)"
    by (simp add: test_defs)
  have g': "get_strict test_classes (Suc 0) ?s Required
             = Some (Inl (ContainerError ''Required is not registered in container.''), ?s)"
    by (simp add: test_defs not_registered_def)
  from get_leaves_tables_unchanged[of test_classes "Suc (Suc 0)" ?s CallbackArg "Inr (VObj 1)"
         "?s\<lparr>heap := [[], [(''callback'', VObj 0)]]\<rparr>"] g g'
  show ?thesis by simp
qed

end
